theory Spec2Isabelle
  imports Main
begin

section \<open>Strings and the library functions the game calls\<close>

text \<open>
  A Python \<open>str\<close> is a sequence of Unicode code points and \<open>len\<close> counts code points, so
  a string is modelled as a list of code points (natural numbers).  An ASCII literal of
  the source is written \<open>str_of ''apple''\<close>.
\<close>

type_synonym codepoint = nat
type_synonym str = "codepoint list"

definition str_of :: "string \<Rightarrow> str" where
  "str_of cs = map of_char cs"

text \<open>
  \<open>str.lower()\<close> and \<open>str.strip()\<close> are builtins of the Python runtime, not code of this
  repository.  Every function of the model that calls one of them takes it as a
  parameter (\<open>lower\<close>, \<open>strip\<close>), and the general theorems hold for any function passed
  there, under the hypotheses they state.

  For concrete runs the theory gives the two builtins on a fragment of Unicode.
  \<open>lower_cp\<close> is the full lowercase mapping of \<open>str.lower()\<close> on the code points below
  U+0100 (the letters A to Z and the capital letters of Latin-1, U+00C0 to U+00DE
  without the multiplication sign U+00D7, move up by 32) and on U+0130, LATIN CAPITAL
  LETTER I WITH DOT ABOVE, whose lowercase is two code points: \<open>i\<close> followed by U+0307,
  COMBINING DOT ABOVE, which lowercasing leaves alone.  Other code points are left alone
  by \<open>lower_cp\<close> too, so \<open>str_lower\<close> stands for \<open>str.lower()\<close> only on strings of the
  fragment, and it is only ever evaluated on such strings.
\<close>

definition lower_cp :: "codepoint \<Rightarrow> str" where
  "lower_cp c =
     (if 0x41 \<le> c \<and> c \<le> 0x5A then [c + 0x20]
      else if 0xC0 \<le> c \<and> c \<le> 0xDE \<and> c \<noteq> 0xD7 then [c + 0x20]
      else if c = 0x130 then [0x69, 0x307]
      else [c])"

definition str_lower :: "str \<Rightarrow> str" where
  "str_lower s = concat (map lower_cp s)"

text \<open>
  \<open>str.strip()\<close> without arguments removes leading and trailing whitespace; \<open>isspace\<close>
  lists the code points that Python counts as whitespace.
\<close>

definition isspace :: "codepoint \<Rightarrow> bool" where
  "isspace c =
     ((0x09 \<le> c \<and> c \<le> 0x0D) \<or> (0x1C \<le> c \<and> c \<le> 0x20) \<or> c = 0x85 \<or> c = 0xA0
      \<or> c = 0x1680 \<or> (0x2000 \<le> c \<and> c \<le> 0x200A) \<or> c = 0x2028 \<or> c = 0x2029
      \<or> c = 0x202F \<or> c = 0x205F \<or> c = 0x3000)"

definition str_strip :: "str \<Rightarrow> str" where
  "str_strip s = rev (dropWhile isspace (rev (dropWhile isspace s)))"

section \<open>The feedback grader\<close>

text \<open>The three feedback tiles of the source, each a string of one code point.\<close>

definition GREEN :: str where "GREEN = [0x1F7E9]"
definition YELLOW :: str where "YELLOW = [0x1F7E8]"
definition BLACK :: str where "BLACK = [0x2B1B]"

datatype error = ValueError | IndexError | EOFError

text \<open>\<open>remaining.get(ch, 0)\<close> on the dictionary of unmatched solution letters.\<close>

definition get :: "(codepoint \<rightharpoonup> int) \<Rightarrow> codepoint \<Rightarrow> int \<Rightarrow> int" where
  "get d k dflt = (case d k of None \<Rightarrow> dflt | Some v \<Rightarrow> v)"

text \<open>
  The first loop of \<open>grade_guess\<close>, over \<open>enumerate(solution)\<close>.  It reads \<open>guess[i]\<close>,
  which raises \<open>IndexError\<close> in Python when \<open>i\<close> is out of range.
\<close>

fun first_pass ::
  "str \<Rightarrow> (nat \<times> codepoint) list \<Rightarrow> str list \<times> (codepoint \<rightharpoonup> int)
     \<Rightarrow> error + str list \<times> (codepoint \<rightharpoonup> int)" where
  "first_pass guess [] (feedback, remaining) = Inr (feedback, remaining)"
| "first_pass guess ((i, ch) # rest) (feedback, remaining) =
     (if length guess \<le> i then Inl IndexError
      else if guess ! i = ch then first_pass guess rest (feedback[i := GREEN], remaining)
      else first_pass guess rest (feedback, remaining(ch \<mapsto> get remaining ch 0 + 1)))"

text \<open>
  The second loop, over \<open>enumerate(guess)\<close>.  \<open>remaining[ch] -= 1\<close> runs only when
  \<open>remaining.get(ch, 0) > 0\<close>, so the key is present and its value is the one \<open>get\<close> read.
\<close>

fun second_pass ::
  "(nat \<times> codepoint) list \<Rightarrow> str list \<times> (codepoint \<rightharpoonup> int) \<Rightarrow> str list \<times> (codepoint \<rightharpoonup> int)" where
  "second_pass [] (feedback, remaining) = (feedback, remaining)"
| "second_pass ((i, ch) # rest) (feedback, remaining) =
     (if feedback ! i = GREEN then second_pass rest (feedback, remaining)
      else if get remaining ch 0 > 0
        then second_pass rest (feedback[i := YELLOW], remaining(ch \<mapsto> get remaining ch 0 - 1))
      else second_pass rest (feedback, remaining))"

definition grade_guess :: "(str \<Rightarrow> str) \<Rightarrow> str \<Rightarrow> str \<Rightarrow> error + str list" where
  "grade_guess lower solution0 guess0 =
     (let solution = lower solution0;
          guess = lower guess0
      in if length solution \<noteq> length guess then Inl ValueError
         else
           (case first_pass guess (enumerate 0 solution)
                   (replicate (length guess) BLACK, Map.empty) of
              Inl e \<Rightarrow> Inl e
            | Inr (feedback, remaining) \<Rightarrow>
                Inr (fst (second_pass (enumerate 0 guess) (feedback, remaining)))))"


section \<open>The game round\<close>

text \<open>
  The word lists of the source.  \<open>ALLOWED\<close> is a module-level set that the start-up code
  extends with the five-letter words of the system dictionaries it finds, so the round
  takes the set as a parameter; \<open>ALLOWED0\<close> is its value when no dictionary is found.
\<close>

definition SOLUTIONS :: "str list" where
  "SOLUTIONS = map str_of
     [''apple'', ''grace'', ''plane'', ''crane'', ''stone'', ''light'', ''glass'', ''flame'',
      ''pride'', ''brave'', ''shard'', ''shoes'', ''prism'', ''civic'', ''rally'', ''karma'',
      ''honey'', ''bling'', ''mango'', ''charm'', ''fleet'', ''quota'', ''input'', ''zesty'',
      ''dance'', ''eagle'', ''fable'', ''gamer'', ''hippo'', ''jazzy'', ''kayak'', ''linen'']"

definition ALLOWED0 :: "str set" where
  "ALLOWED0 = set SOLUTIONS \<union> set (map str_of
     [''about'', ''other'', ''which'', ''their'', ''there'', ''would'', ''these'',
      ''brown'', ''quick'', ''zebra'', ''vivid'', ''young'', ''quiet'', ''pound'',
      ''bound'', ''stony'', ''slope'', ''pride'', ''trace''])"

text \<open>
  What the round prints, one constructor per \<open>print\<close> or prompt of \<open>play_interactive\<close>:
  the two banner lines, the prompt of \<open>input\<close> with the attempt number and the maximum,
  the two complaints about a rejected line, the joined feedback tiles, the success line
  with the attempt number and the closing line that reveals the solution.
\<close>

datatype event =
    Welcome
  | Legend nat
  | Prompt nat nat
  | WrongLength nat
  | NotAllowed
  | Tiles str
  | Nice nat
  | Reveal str

text \<open>
  Standard input is the list of the lines still to be read; \<open>input\<close> prints its prompt
  and raises \<open>EOFError\<close> when the list is empty.  \<open>read_guess\<close> is the inner
  \<open>while True\<close> loop: it reads until a line passes both checks.
\<close>

fun read_guess ::
  "(str \<Rightarrow> str) \<Rightarrow> (str \<Rightarrow> str) \<Rightarrow> str set \<Rightarrow> nat \<Rightarrow> nat \<Rightarrow> nat \<Rightarrow> str list \<Rightarrow> event list
     \<Rightarrow> (error + str) \<times> str list \<times> event list" where
  "read_guess lower strip ALLOWED len attempt max_guesses [] out =
     (Inl EOFError, [], out @ [Prompt attempt max_guesses])"
| "read_guess lower strip ALLOWED len attempt max_guesses (line # stdin) out =
     (let guess = lower (strip line);
          out' = out @ [Prompt attempt max_guesses]
      in if length guess \<noteq> len
         then read_guess lower strip ALLOWED len attempt max_guesses stdin (out' @ [WrongLength len])
         else if guess \<notin> ALLOWED
         then read_guess lower strip ALLOWED len attempt max_guesses stdin (out' @ [NotAllowed])
         else (Inr guess, stdin, out'))"

text \<open>
  The \<open>for attempt in range(1, max_guesses + 1)\<close> loop.  It yields \<open>Inr True\<close> when the
  function returned from inside the loop, \<open>Inr False\<close> when the range ran out, and the
  exception when \<open>input\<close> or \<open>grade_guess\<close> raised.
\<close>

fun guess_loop ::
  "(str \<Rightarrow> str) \<Rightarrow> (str \<Rightarrow> str) \<Rightarrow> str set \<Rightarrow> str \<Rightarrow> nat \<Rightarrow> nat list \<Rightarrow> str list \<Rightarrow> event list
     \<Rightarrow> (error + bool) \<times> str list \<times> event list" where
  "guess_loop lower strip ALLOWED solution max_guesses [] stdin out = (Inr False, stdin, out)"
| "guess_loop lower strip ALLOWED solution max_guesses (attempt # attempts) stdin out =
     (case read_guess lower strip ALLOWED (length solution) attempt max_guesses stdin out of
        (Inl e, stdin', out') \<Rightarrow> (Inl e, stdin', out')
      | (Inr guess, stdin', out') \<Rightarrow>
          (case grade_guess lower solution guess of
             Inl e \<Rightarrow> (Inl e, stdin', out')
           | Inr feedback \<Rightarrow>
               if list_all (\<lambda>s. s = GREEN) feedback
               then (Inr True, stdin', out' @ [Tiles (concat feedback), Nice attempt])
               else guess_loop lower strip ALLOWED solution max_guesses attempts stdin'
                      (out' @ [Tiles (concat feedback)])))"

text \<open>
  \<open>play_interactive\<close>.  \<open>choice\<close> is the word \<open>random.choice(SOLUTIONS)\<close> would return;
  \<open>solution or ...\<close> takes it when the argument is \<open>None\<close> or the empty string.  The
  result is how the call ended (\<open>Inr ()\<close> for a normal return), the unread input and
  everything printed.
\<close>

definition play_interactive ::
  "(str \<Rightarrow> str) \<Rightarrow> (str \<Rightarrow> str) \<Rightarrow> str set \<Rightarrow> str \<Rightarrow> str option \<Rightarrow> str list
     \<Rightarrow> (error + unit) \<times> str list \<times> event list" where
  "play_interactive lower strip ALLOWED choice solution0 stdin =
     (let solution = lower (case solution0 of None \<Rightarrow> choice
                            | Some s \<Rightarrow> if s = [] then choice else s);
          max_guesses = 6;
          out = [Welcome, Legend max_guesses]
      in case guess_loop lower strip ALLOWED solution max_guesses [1..<max_guesses + 1] stdin out of
           (Inl e, stdin', out') \<Rightarrow> (Inl e, stdin', out')
         | (Inr True, stdin', out') \<Rightarrow> (Inr (), stdin', out')
         | (Inr False, stdin', out') \<Rightarrow> (Inr (), stdin', out' @ [Reveal solution]))"

section \<open>The specification's vocabulary\<close>

text \<open>
  The specification names the three classifications \<open>Exact\<close>, \<open>Present\<close> and \<open>Absent\<close>;
  the source shows them as the green, yellow and black tile.
\<close>

datatype classification = Exact | Present | Absent

fun glyph :: "classification \<Rightarrow> str" where
  "glyph Exact = GREEN"
| "glyph Present = YELLOW"
| "glyph Absent = BLACK"

text \<open>
  The two-pass reference algorithm, in the specification's words.  First pass: for each
  position, if the guessed character equals the solution's, the position is classified
  \<open>Exact\<close> (flag \<open>True\<close>); for every position not classified \<open>Exact\<close> the counter
  \<open>remaining\<close> of the solution's character is incremented.  Second pass, run on the
  result of the whole first pass: for each position not already \<open>Exact\<close>, if the counter
  of the guessed character is positive the position is \<open>Present\<close> and the counter is
  decremented, otherwise the position is \<open>Absent\<close>.  \<open>spec_grade\<close> starts the counters
  at zero and runs the first pass to its end before the second.
\<close>

fun spec_first_pass :: "str \<Rightarrow> str \<Rightarrow> (codepoint \<Rightarrow> nat) \<Rightarrow> bool list \<times> (codepoint \<Rightarrow> nat)" where
  "spec_first_pass (s # solution) (g # guess) remaining =
     (if g = s
      then (case spec_first_pass solution guess remaining of
              (exact, remaining') \<Rightarrow> (True # exact, remaining'))
      else (case spec_first_pass solution guess (remaining(s := remaining s + 1)) of
              (exact, remaining') \<Rightarrow> (False # exact, remaining')))"
| "spec_first_pass _ _ remaining = ([], remaining)"

fun spec_second_pass :: "bool list \<Rightarrow> str \<Rightarrow> (codepoint \<Rightarrow> nat) \<Rightarrow> classification list" where
  "spec_second_pass (e # exact) (g # guess) remaining =
     (if e then Exact # spec_second_pass exact guess remaining
      else if remaining g > 0
        then Present # spec_second_pass exact guess (remaining(g := remaining g - 1))
      else Absent # spec_second_pass exact guess remaining)"
| "spec_second_pass _ _ remaining = []"

definition spec_grade :: "str \<Rightarrow> str \<Rightarrow> classification list" where
  "spec_grade solution guess =
     (case spec_first_pass solution guess (\<lambda>_. 0) of
        (exact, remaining) \<Rightarrow> spec_second_pass exact guess remaining)"

text \<open>
  The dictionary \<open>remaining\<close> of the source and the counters of the reference algorithm
  agree when \<open>get\<close> with default 0 reads every counter.
\<close>

definition agrees :: "(codepoint \<rightharpoonup> int) \<Rightarrow> (codepoint \<Rightarrow> nat) \<Rightarrow> bool" where
  "agrees d r = (\<forall>c. get d c 0 = int (r c))"


text \<open>
  \<open>credited feedback guess c\<close> counts the positions that hold the character \<open>c\<close> in the
  guess and a green or yellow tile in the feedback.
\<close>

definition credited :: "str list \<Rightarrow> str \<Rightarrow> codepoint \<Rightarrow> nat" where
  "credited feedback guess c =
     length (filter (\<lambda>(f, ch). (f = GREEN \<or> f = YELLOW) \<and> ch = c) (zip feedback guess))"

text \<open>
  \<open>unmatched solution guess c\<close> counts the occurrences of \<open>c\<close> in the solution at
  positions where the guess holds another character: the occurrences left over by the
  exact matches.  \<open>earlier solution guess i\<close> counts the positions before \<open>i\<close> that are
  not exact matches and hold the same guessed character as position \<open>i\<close>.
\<close>

definition unmatched :: "str \<Rightarrow> str \<Rightarrow> codepoint \<Rightarrow> nat" where
  "unmatched solution guess c =
     length (filter (\<lambda>(s, g). s = c \<and> g \<noteq> s) (zip solution guess))"

definition earlier :: "str \<Rightarrow> str \<Rightarrow> nat \<Rightarrow> nat" where
  "earlier solution guess i =
     length (filter (\<lambda>(s, g). g = guess ! i \<and> g \<noteq> s) (take i (zip solution guess)))"

text \<open>
  A line of input is accepted by the round when, stripped and lowercased, it has the
  solution's length and belongs to the vocabulary.  An accepted guess wins when
  \<open>grade_guess\<close> returns green tiles only.  \<open>graded out\<close> counts the feedback lines in
  the output, one per graded guess.
\<close>

definition accepted :: "(str \<Rightarrow> str) \<Rightarrow> (str \<Rightarrow> str) \<Rightarrow> str set \<Rightarrow> nat \<Rightarrow> str \<Rightarrow> bool" where
  "accepted lower strip ALLOWED len line =
     (length (lower (strip line)) = len \<and> lower (strip line) \<in> ALLOWED)"

definition wins :: "(str \<Rightarrow> str) \<Rightarrow> str \<Rightarrow> str \<Rightarrow> bool" where
  "wins lower solution guess =
     (case grade_guess lower solution guess of
        Inl e \<Rightarrow> False
      | Inr feedback \<Rightarrow> list_all (\<lambda>s. s = GREEN) feedback)"

text \<open>
  \<open>guesses\<close> is the sequence of guesses the round accepts from its input: the accepted
  lines, stripped and lowercased, in the order they are typed.
\<close>

definition guesses :: "(str \<Rightarrow> str) \<Rightarrow> (str \<Rightarrow> str) \<Rightarrow> str set \<Rightarrow> nat \<Rightarrow> str list \<Rightarrow> str list" where
  "guesses lower strip ALLOWED len stdin =
     map (\<lambda>line. lower (strip line)) (filter (accepted lower strip ALLOWED len) stdin)"

fun is_tiles :: "event \<Rightarrow> bool" where
  "is_tiles (Tiles t) = True"
| "is_tiles _ = False"

definition graded :: "event list \<Rightarrow> nat" where
  "graded out = length (filter is_tiles out)"

section \<open>Agreement of the source with the two-pass reference algorithm\<close>

lemma tiles_distinct [simp]:
  "GREEN \<noteq> BLACK" "BLACK \<noteq> GREEN" "GREEN \<noteq> YELLOW" "YELLOW \<noteq> GREEN"
  "YELLOW \<noteq> BLACK" "BLACK \<noteq> YELLOW"
  by (simp_all add: GREEN_def YELLOW_def BLACK_def)

lemma agrees_empty: "agrees Map.empty (\<lambda>_. 0)"
  by (simp add: agrees_def get_def)

lemma agrees_incr:
  "agrees d r \<Longrightarrow> agrees (d(c \<mapsto> get d c 0 + 1)) (r(c := r c + 1))"
  by (simp add: agrees_def get_def)

lemma agrees_decr:
  "agrees d r \<Longrightarrow> 0 < r c \<Longrightarrow> agrees (d(c \<mapsto> get d c 0 - 1)) (r(c := r c - 1))"
  by (auto simp add: agrees_def get_def)

lemma agrees_pos: "agrees d r \<Longrightarrow> (0 < get d c 0) = (0 < r c)"
  by (simp add: agrees_def)

lemma length_spec_first_pass:
  "length gs = length ss \<Longrightarrow> length (fst (spec_first_pass ss gs r)) = length ss"
  by (induction ss gs r rule: spec_first_pass.induct) (auto split: prod.splits)

lemma first_pass_run:
  "length gs = length ss \<Longrightarrow> length fsuf = length ss \<Longrightarrow> length pre = length fpre \<Longrightarrow>
   agrees d r \<Longrightarrow>
   \<exists>d'. first_pass (pre @ gs) (enumerate (length fpre) ss) (fpre @ fsuf, d) =
           Inr (fpre @ map2 (\<lambda>f e. if e then GREEN else f) fsuf (fst (spec_first_pass ss gs r)), d')
        \<and> agrees d' (snd (spec_first_pass ss gs r))"
proof (induction ss arbitrary: gs fsuf pre fpre d r)
  case Nil
  then show ?case by simp
next
  case (Cons s ss)
  from Cons.prems obtain g gs' where gs: "gs = g # gs'" "length gs' = length ss"
    by (cases gs) auto
  from Cons.prems obtain f fsuf' where fs: "fsuf = f # fsuf'" "length fsuf' = length ss"
    by (cases fsuf) auto
  have len: "length (pre @ [g]) = length (fpre @ [x])" for x :: str
    using Cons.prems by simp
  show ?case
  proof (cases "g = s")
    case True
    from Cons.IH [OF gs(2) fs(2) len [of GREEN] \<open>agrees d r\<close>]
    obtain d' where
      "first_pass ((pre @ [g]) @ gs') (enumerate (length (fpre @ [GREEN])) ss)
         ((fpre @ [GREEN]) @ fsuf', d) =
       Inr ((fpre @ [GREEN]) @ map2 (\<lambda>f e. if e then GREEN else f) fsuf' (fst (spec_first_pass ss gs' r)), d')"
      "agrees d' (snd (spec_first_pass ss gs' r))"
      by blast
    with True gs fs Cons.prems(3) show ?thesis
      by (auto simp add: nth_append list_update_append split: prod.splits)
  next
    case False
    from Cons.IH [OF gs(2) fs(2) len [of f] agrees_incr [OF \<open>agrees d r\<close>, of s]]
    obtain d' where
      "first_pass ((pre @ [g]) @ gs') (enumerate (length (fpre @ [f])) ss)
         ((fpre @ [f]) @ fsuf', d(s \<mapsto> get d s 0 + 1)) =
       Inr ((fpre @ [f]) @ map2 (\<lambda>f e. if e then GREEN else f) fsuf' (fst (spec_first_pass ss gs' (r(s := r s + 1)))), d')"
      "agrees d' (snd (spec_first_pass ss gs' (r(s := r s + 1))))"
      by blast
    with False gs fs Cons.prems(3) show ?thesis
      by (auto simp add: nth_append split: prod.splits)
  qed
qed

lemma second_pass_run:
  "length es = length gs \<Longrightarrow> agrees d r \<Longrightarrow>
   fst (second_pass (enumerate (length fpre) gs)
          (fpre @ map (\<lambda>e. if e then GREEN else BLACK) es, d)) =
   fpre @ map glyph (spec_second_pass es gs r)"
proof (induction gs arbitrary: es fpre d r)
  case Nil
  then show ?case by simp
next
  case (Cons g gs)
  from Cons.prems obtain e es' where es: "es = e # es'" "length es' = length gs"
    by (cases es) auto
  have step: "fst (second_pass (enumerate (Suc (length fpre)) gs)
                 (fpre @ x # map (\<lambda>e. if e then GREEN else BLACK) es', d')) =
              fpre @ x # map glyph (spec_second_pass es' gs r')"
    if "agrees d' r'" for x d' r'
    using Cons.IH [OF es(2) that, of "fpre @ [x]"] by simp
  show ?case
  proof (cases e)
    case True
    with es step [OF \<open>agrees d r\<close>, of GREEN] show ?thesis
      by (simp add: nth_append)
  next
    case False
    show ?thesis
    proof (cases "0 < r g")
      case True
      with False es step [OF agrees_decr [OF \<open>agrees d r\<close> True], of YELLOW]
        agrees_pos [OF \<open>agrees d r\<close>, of g]
      show ?thesis
        by (simp add: nth_append list_update_append)
    next
      case no: False
      with False es step [OF \<open>agrees d r\<close>, of BLACK] agrees_pos [OF \<open>agrees d r\<close>, of g]
      show ?thesis
        by (simp add: nth_append)
    qed
  qed
qed

lemma map2_replicate_BLACK:
  "length es = n \<Longrightarrow>
   map2 (\<lambda>f e. if e then GREEN else f) (replicate n BLACK) es =
   map (\<lambda>e. if e then GREEN else BLACK) es"
  by (induction es arbitrary: n) auto

lemma grade_guess_eq:
  "grade_guess lower solution guess =
     (if length (lower solution) \<noteq> length (lower guess) then Inl ValueError
      else Inr (map glyph (spec_grade (lower solution) (lower guess))))"
proof (cases "length (lower solution) = length (lower guess)")
  case False
  then show ?thesis by (simp add: grade_guess_def)
next
  case True
  let ?s = "lower solution" and ?g = "lower guess"
  from first_pass_run [of ?g ?s "replicate (length ?g) BLACK" "[]" "[]" Map.empty "\<lambda>_. 0"]
    True agrees_empty
  obtain d' where fp:
    "first_pass ?g (enumerate 0 ?s) (replicate (length ?g) BLACK, Map.empty) =
       Inr (map2 (\<lambda>f e. if e then GREEN else f) (replicate (length ?g) BLACK)
              (fst (spec_first_pass ?s ?g (\<lambda>_. 0))), d')"
    "agrees d' (snd (spec_first_pass ?s ?g (\<lambda>_. 0)))"
    by auto
  have len: "length (fst (spec_first_pass ?s ?g (\<lambda>_. 0))) = length ?g"
    using True by (simp add: length_spec_first_pass)
  from second_pass_run [OF len fp(2), of "[]"]
  have "fst (second_pass (enumerate 0 ?g)
          (map (\<lambda>e. if e then GREEN else BLACK) (fst (spec_first_pass ?s ?g (\<lambda>_. 0))), d')) =
        map glyph (spec_grade ?s ?g)"
    by (simp add: spec_grade_def split: prod.splits)
  with True fp(1) len show ?thesis
    by (simp add: grade_guess_def Let_def map2_replicate_BLACK)
qed


section \<open>Properties of the reference algorithm\<close>

lemma length_spec_second_pass:
  "length es = length gs \<Longrightarrow> length (spec_second_pass es gs r) = length gs"
  by (induction es gs r rule: spec_second_pass.induct) auto

lemma fst_spec_first_pass:
  "length ss = length gs \<Longrightarrow> fst (spec_first_pass ss gs r) = map2 (\<lambda>s g. g = s) ss gs"
  by (induction ss gs arbitrary: r rule: list_induct2) (simp_all add: split_beta)

lemma snd_spec_first_pass:
  "length ss = length gs \<Longrightarrow> snd (spec_first_pass ss gs r) c = r c + unmatched ss gs c"
  by (induction ss gs arbitrary: r rule: list_induct2) (simp_all add: unmatched_def split_beta)

lemma spec_grade_eq:
  "length ss = length gs \<Longrightarrow>
   spec_grade ss gs = spec_second_pass (map2 (\<lambda>s g. g = s) ss gs) gs (unmatched ss gs)"
proof -
  assume len: "length ss = length gs"
  have "snd (spec_first_pass ss gs (\<lambda>_. 0)) = unmatched ss gs"
    using snd_spec_first_pass [OF len, of "\<lambda>_. 0"] by auto
  with fst_spec_first_pass [OF len, of "\<lambda>_. 0"] show ?thesis
    by (simp add: spec_grade_def split_beta)
qed

lemma length_spec_grade:
  "length ss = length gs \<Longrightarrow> length (spec_grade ss gs) = length gs"
  by (simp add: spec_grade_eq length_spec_second_pass)

lemma spec_second_pass_same:
  "spec_second_pass (map2 (\<lambda>s g. g = s) ss ss) ss r = replicate (length ss) Exact"
  by (induction ss) simp_all


lemma credited_Cons:
  "credited (f # fb) (g # gs) c =
     (if (f = GREEN \<or> f = YELLOW) \<and> g = c then Suc (credited fb gs c) else credited fb gs c)"
  by (simp add: credited_def)

lemma credited_second_pass:
  "length ss = length gs \<Longrightarrow>
   credited (map glyph (spec_second_pass (map2 (\<lambda>s g. g = s) ss gs) gs r)) gs c
     \<le> length (filter (\<lambda>(s, g). s = c \<and> g = s) (zip ss gs)) + r c"
proof (induction ss gs arbitrary: r rule: list_induct2)
  case Nil
  then show ?case by (simp add: credited_def)
next
  case (Cons s ss g gs)
  let ?rest = "\<lambda>r. credited (map glyph (spec_second_pass (map2 (\<lambda>s g. g = s) ss gs) gs r)) gs c"
  let ?same = "length (filter (\<lambda>(s, g). s = c \<and> g = s) (zip ss gs))"
  show ?case
  proof (cases "g = s")
    case True
    have "?rest r \<le> ?same + r c" by (rule Cons.IH)
    with True show ?thesis
      by (simp add: credited_Cons)
  next
    case False
    show ?thesis
    proof (cases "0 < r g")
      case True
      have "?rest (r(g := r g - 1)) \<le> ?same + (r(g := r g - 1)) c" by (rule Cons.IH)
      then have "g = c \<Longrightarrow> Suc (?rest (r(g := r g - 1))) \<le> ?same + r c"
        and "g \<noteq> c \<Longrightarrow> ?rest (r(g := r g - 1)) \<le> ?same + r c"
        using True by auto
      with False True show ?thesis
        by (simp add: credited_Cons)
    next
      case no: False
      have "?rest r \<le> ?same + r c" by (rule Cons.IH)
      with False no show ?thesis
        by (simp add: credited_Cons)
    qed
  qed
qed

lemma count_list_split:
  "length ss = length gs \<Longrightarrow>
   count_list ss c = length (filter (\<lambda>(s, g). s = c \<and> g = s) (zip ss gs)) + unmatched ss gs c"
  by (induction ss gs rule: list_induct2) (simp_all add: unmatched_def)

lemma credited_spec_grade:
  "length ss = length gs \<Longrightarrow> credited (map glyph (spec_grade ss gs)) gs c \<le> count_list ss c"
  using credited_second_pass [of ss gs "unmatched ss gs" c]
  by (simp add: spec_grade_eq count_list_split [of ss gs c])

lemma earlier_Cons_Suc:
  "earlier (s # ss) (g # gs) (Suc j) =
     (if g = gs ! j \<and> g \<noteq> s then Suc (earlier ss gs j) else earlier ss gs j)"
  by (simp add: earlier_def)

lemma spec_second_pass_nth:
  "length ss = length gs \<Longrightarrow> i < length gs \<Longrightarrow>
   spec_second_pass (map2 (\<lambda>s g. g = s) ss gs) gs r ! i =
     (if gs ! i = ss ! i then Exact
      else if earlier ss gs i < r (gs ! i) then Present else Absent)"
proof (induction ss gs arbitrary: r i rule: list_induct2)
  case Nil
  then show ?case by simp
next
  case (Cons s ss g gs)
  show ?case
  proof (cases i)
    case 0
    then show ?thesis by (simp add: earlier_def)
  next
    case (Suc j)
    with Cons.prems have j: "j < length gs" by simp
    have IH: "spec_second_pass (map2 (\<lambda>s g. g = s) ss gs) gs r' ! j =
                (if gs ! j = ss ! j then Exact
                 else if earlier ss gs j < r' (gs ! j) then Present else Absent)" for r'
      by (rule Cons.IH [OF j])
    show ?thesis
    proof (cases "g = s")
      case True
      with Suc show ?thesis
        by (simp add: earlier_Cons_Suc IH)
    next
      case False
      show ?thesis
      proof (cases "0 < r g")
        case True
        with False Suc show ?thesis
          by (auto simp add: earlier_Cons_Suc IH)
      next
        case no: False
        with False Suc show ?thesis
          by (auto simp add: earlier_Cons_Suc IH)
      qed
    qed
  qed
qed


section \<open>Evaluating the model on concrete strings\<close>

lemmas grade_eval =
  grade_guess_def str_lower_def lower_cp_def str_of_def GREEN_def YELLOW_def BLACK_def get_def

lemma lower_cp_fixed: "str_lower (lower_cp c) = lower_cp c"
  by (simp add: str_lower_def lower_cp_def)

lemma str_lower_append: "str_lower (a @ b) = str_lower a @ str_lower b"
  by (simp add: str_lower_def)

lemma str_lower_idem: "str_lower (str_lower s) = str_lower s"
proof (induction s)
  case Nil
  show ?case by (simp add: str_lower_def)
next
  case (Cons c s)
  have "str_lower (c # s) = lower_cp c @ str_lower s"
    by (simp add: str_lower_def)
  with Cons show ?case
    by (simp add: str_lower_append lower_cp_fixed)
qed

section \<open>The claims about the grader\<close>

text \<open>
  C1.  The grader compares the lowercased strings, so the bound fails on the characters
  of the strings as passed: the guess \<open>A\<close> against the solution \<open>a\<close> gets a green tile,
  one credited position whose guessed character is \<open>A\<close>, and \<open>A\<close> does not occur in the
  solution.
\<close>

theorem grade_guess_credit_bound_counterexample:
  "length (str_of ''a'') = length (str_of ''A'')
   \<and> grade_guess str_lower (str_of ''a'') (str_of ''A'') = Inr [GREEN]
   \<and> credited [GREEN] (str_of ''A'') (of_char CHR ''A'') = 1
   \<and> count_list (str_of ''a'') (of_char CHR ''A'') = 0"
  by (simp add: grade_eval credited_def)

text \<open>
  C1, as the code has it.  For every solution and guess that are of equal length once
  lowercased, \<open>grade_guess\<close> returns feedback, and for every character \<open>c\<close> the number of
  positions with a green or yellow tile at which the lowercased guess holds \<open>c\<close> is at
  most the number of occurrences of \<open>c\<close> in the lowercased solution.
\<close>

theorem grade_guess_credit_bound:
  "length (lower solution) = length (lower guess) \<Longrightarrow>
   \<exists>feedback. grade_guess lower solution guess = Inr feedback
     \<and> credited feedback (lower guess) c \<le> count_list (lower solution) c"
  by (simp add: grade_guess_eq credited_spec_grade)

theorem grade_guess_credit_bound_witness:
  "length (str_lower (str_of ''sense'')) = length (str_lower (str_of ''seeds''))
   \<and> (\<exists>feedback. grade_guess str_lower (str_of ''sense'') (str_of ''seeds'') = Inr feedback
        \<and> credited feedback (str_lower (str_of ''seeds'')) (of_char CHR ''e'')
            \<le> count_list (str_lower (str_of ''sense'')) (of_char CHR ''e''))"
proof -
  have h: "length (str_lower (str_of ''sense'')) = length (str_lower (str_of ''seeds''))"
    by (simp add: str_lower_def lower_cp_def str_of_def)
  from h grade_guess_credit_bound
    [of str_lower "str_of ''sense''" "str_of ''seeds''" "of_char CHR ''e''", OF h]
  show ?thesis
    by blast
qed

text \<open>
  C2.  On the strings as passed the two-pass reference algorithm and the code disagree:
  for the solution \<open>a\<close> and the guess \<open>A\<close> the reference algorithm compares \<open>A\<close> with \<open>a\<close>
  and answers \<open>Absent\<close>, the code answers with the green tile; and for the solution
  U+0130 and the guess \<open>a\<close>, of equal length, the code raises \<open>ValueError\<close>.
\<close>

theorem grade_guess_refines_two_pass_counterexample:
  "length (str_of ''a'') = length (str_of ''A'')
   \<and> grade_guess str_lower (str_of ''a'') (str_of ''A'') = Inr [GREEN]
   \<and> map glyph (spec_grade (str_of ''a'') (str_of ''A'')) = [BLACK]
   \<and> [GREEN] \<noteq> [BLACK]
   \<and> length [0x130 :: codepoint] = length (str_of ''a'')
   \<and> grade_guess str_lower [0x130] (str_of ''a'') = Inl ValueError"
  by (simp add: grade_eval spec_grade_def)

text \<open>
  C2, as the code has it.  For every solution and guess of equal length once lowercased,
  \<open>grade_guess\<close> returns the tiles of the two-pass reference algorithm \<open>spec_grade\<close> run
  on the lowercased solution and the lowercased guess: the first pass marks the exact
  matches and counts the other solution letters, and only then the second pass hands
  out the counted letters from left to right.
\<close>

theorem grade_guess_refines_two_pass:
  "length (lower solution) = length (lower guess) \<Longrightarrow>
   grade_guess lower solution guess = Inr (map glyph (spec_grade (lower solution) (lower guess)))"
  by (simp add: grade_guess_eq)

theorem grade_guess_refines_two_pass_witness:
  "length (str_lower (str_of ''arrow'')) = length (str_lower (str_of ''rarer''))
   \<and> grade_guess str_lower (str_of ''arrow'') (str_of ''rarer'') =
       Inr (map glyph (spec_grade (str_lower (str_of ''arrow'')) (str_lower (str_of ''rarer''))))
   \<and> spec_grade (str_lower (str_of ''arrow'')) (str_lower (str_of ''rarer'')) =
       [Present, Present, Exact, Absent, Absent]"
proof -
  have h: "length (str_lower (str_of ''arrow'')) = length (str_lower (str_of ''rarer''))"
    by (simp add: str_lower_def lower_cp_def str_of_def)
  have v: "spec_grade (str_lower (str_of ''arrow'')) (str_lower (str_of ''rarer'')) =
             [Present, Present, Exact, Absent, Absent]"
    by (simp add: spec_grade_def str_lower_def lower_cp_def str_of_def)
  from h v grade_guess_refines_two_pass
    [of str_lower "str_of ''arrow''" "str_of ''rarer''", OF h]
  show ?thesis
    by blast
qed

text \<open>
  C3.  The four scenarios of the specification and of the source's self-test.
\<close>

theorem grade_guess_scenarios:
  "grade_guess str_lower (str_of ''apple'') (str_of ''apple'') =
     Inr [GREEN, GREEN, GREEN, GREEN, GREEN]
   \<and> grade_guess str_lower (str_of ''crane'') (str_of ''crate'') =
     Inr [GREEN, GREEN, GREEN, BLACK, GREEN]
   \<and> grade_guess str_lower (str_of ''arrow'') (str_of ''rarer'') =
     Inr [YELLOW, YELLOW, GREEN, BLACK, BLACK]
   \<and> grade_guess str_lower (str_of ''sense'') (str_of ''seeds'') =
     Inr [GREEN, GREEN, YELLOW, BLACK, YELLOW]"
  by (simp add: grade_eval)

text \<open>
  C4.  Grading a string against itself returns green tiles only, one per character of
  the lowercased string.
\<close>

theorem grade_guess_same:
  "grade_guess lower s s = Inr (replicate (length (lower s)) GREEN)"
  by (simp add: grade_guess_eq spec_grade_eq spec_second_pass_same)

text \<open>
  C5.  Grading is case-insensitive: grading \<open>S\<close> and \<open>G\<close> gives the same result, feedback
  or error, as grading their lowercased forms.  The hypotheses say that lowercasing the
  two lowercased strings again changes nothing, as \<open>str.lower()\<close> does.
\<close>

theorem grade_guess_case_insensitive:
  "lower (lower S) = lower S \<Longrightarrow> lower (lower G) = lower G \<Longrightarrow>
   grade_guess lower S G = grade_guess lower (lower S) (lower G)"
  by (simp add: grade_guess_def)

theorem grade_guess_case_insensitive_witness:
  "str_lower (str_lower (str_of ''CRANE'')) = str_lower (str_of ''CRANE'')
   \<and> str_lower (str_lower (str_of ''Crate'')) = str_lower (str_of ''Crate'')
   \<and> grade_guess str_lower (str_of ''CRANE'') (str_of ''Crate'') =
       grade_guess str_lower (str_lower (str_of ''CRANE'')) (str_lower (str_of ''Crate''))
   \<and> grade_guess str_lower (str_of ''CRANE'') (str_of ''Crate'') =
       Inr [GREEN, GREEN, GREEN, BLACK, GREEN]"
proof -
  have v: "grade_guess str_lower (str_of ''CRANE'') (str_of ''Crate'') =
             Inr [GREEN, GREEN, GREEN, BLACK, GREEN]"
    by (simp add: grade_eval)
  from v grade_guess_case_insensitive [of str_lower "str_of ''CRANE''" "str_of ''Crate''"]
  show ?thesis
    by (simp add: str_lower_idem)
qed

text \<open>
  C6.  The length check compares the lowercased strings.  Lowercasing U+0130 gives two
  code points, so the one-character solution U+0130 is refused against the
  one-character guess \<open>a\<close> and graded against the two-character guess \<open>ab\<close>.
\<close>

theorem grade_guess_length_check_counterexample:
  "length [0x130 :: codepoint] = length [0x61 :: codepoint]
   \<and> grade_guess str_lower [0x130] [0x61] = Inl ValueError
   \<and> length [0x130 :: codepoint] \<noteq> length [0x61, 0x62 :: codepoint]
   \<and> grade_guess str_lower [0x130] [0x61, 0x62] = Inr [BLACK, BLACK]"
  by (simp add: grade_eval)

text \<open>
  C6, as the code has it.  \<open>grade_guess\<close> fails with \<open>ValueError\<close> (the specification's
  \<open>LengthMismatch\<close>) exactly when the lowercased solution and the lowercased guess differ
  in length; it returns feedback exactly when they do not, so a failing call yields no
  feedback, and it fails in no other way.  When lowercasing keeps the length of both
  strings, it fails exactly when the solution and the guess differ in length.
\<close>

theorem grade_guess_value_error:
  "(grade_guess lower solution guess = Inl ValueError)
     = (length (lower solution) \<noteq> length (lower guess))
   \<and> (\<exists>feedback. grade_guess lower solution guess = Inr feedback)
     = (length (lower solution) = length (lower guess))
   \<and> grade_guess lower solution guess \<noteq> Inl IndexError
   \<and> grade_guess lower solution guess \<noteq> Inl EOFError
   \<and> (length (lower solution) = length solution \<and> length (lower guess) = length guess
        \<longrightarrow> (grade_guess lower solution guess = Inl ValueError)
              = (length solution \<noteq> length guess))"
  by (simp add: grade_guess_eq)

theorem grade_guess_value_error_witness:
  "length (str_lower (str_of ''crane'')) = length (str_of ''crane'')
   \<and> length (str_lower (str_of ''Tea'')) = length (str_of ''Tea'')
   \<and> length (str_of ''crane'') \<noteq> length (str_of ''Tea'')
   \<and> grade_guess str_lower (str_of ''crane'') (str_of ''Tea'') = Inl ValueError"
  using grade_guess_value_error [of str_lower "str_of ''crane''" "str_of ''Tea''"]
  by (simp add: str_lower_def lower_cp_def str_of_def)

text \<open>
  C7.  The feedback has one tile per character of the lowercased guess.  The
  one-character guess U+0130 against the same solution gets two tiles.
\<close>

theorem grade_guess_length_counterexample:
  "length [0x130 :: codepoint] = length [0x130 :: codepoint]
   \<and> grade_guess str_lower [0x130] [0x130] = Inr [GREEN, GREEN]
   \<and> length [GREEN, GREEN] \<noteq> length [0x130 :: codepoint]"
  by (simp add: grade_eval)

text \<open>
  C7, as the code has it.  For every solution and guess of equal length once lowercased,
  \<open>grade_guess\<close> returns feedback as long as the lowercased guess and as long as the
  lowercased solution; when lowercasing keeps the guess's length, the feedback is as
  long as the guess.
\<close>

theorem grade_guess_length:
  "length (lower solution) = length (lower guess) \<Longrightarrow>
   \<exists>feedback. grade_guess lower solution guess = Inr feedback
     \<and> length feedback = length (lower guess)
     \<and> length feedback = length (lower solution)
     \<and> (length (lower guess) = length guess \<longrightarrow> length feedback = length guess)"
  by (simp add: grade_guess_eq length_spec_grade)

theorem grade_guess_length_witness:
  "length (str_lower (str_of ''crane'')) = length (str_lower (str_of ''CRATE''))
   \<and> length (str_lower (str_of ''CRATE'')) = length (str_of ''CRATE'')
   \<and> (\<exists>feedback. grade_guess str_lower (str_of ''crane'') (str_of ''CRATE'') = Inr feedback
        \<and> length feedback = length (str_of ''CRATE''))"
proof -
  have h: "length (str_lower (str_of ''crane'')) = length (str_lower (str_of ''CRATE''))"
    and k: "length (str_lower (str_of ''CRATE'')) = length (str_of ''CRATE'')"
    by (simp_all add: str_lower_def lower_cp_def str_of_def)
  from h k grade_guess_length [of str_lower "str_of ''crane''" "str_of ''CRATE''", OF h]
  show ?thesis
    by blast
qed

text \<open>
  C10.  The counts are those of the lowercased strings, not of the strings as passed:
  in the guess \<open>Ax\<close> against the solution \<open>ba\<close> the character \<open>A\<close> has no unmatched
  occurrence in the solution, and its position still gets the yellow tile.
\<close>

theorem grade_guess_left_to_right_counterexample:
  "length (str_of ''ba'') = length (str_of ''Ax'')
   \<and> grade_guess str_lower (str_of ''ba'') (str_of ''Ax'') = Inr [YELLOW, BLACK]
   \<and> str_of ''Ax'' ! 0 \<noteq> str_of ''ba'' ! 0
   \<and> unmatched (str_of ''ba'') (str_of ''Ax'') (str_of ''Ax'' ! 0) = 0
   \<and> [YELLOW, BLACK] ! 0 = YELLOW"
  by (simp add: grade_eval unmatched_def)

text \<open>
  C10, as the code has it.  On the lowercased strings, of equal length, ties among
  repeated guess letters are broken from left to right.  A position whose guessed
  character differs from the solution's gets the yellow tile when fewer non-exact
  positions to its left hold the same character than the solution has unmatched
  occurrences of it, and the black tile otherwise: the leftmost such positions are
  yellow, up to the number of unmatched occurrences, and all later ones are black.
  Positions whose characters agree are green.
\<close>

theorem grade_guess_left_to_right:
  "length (lower solution) = length (lower guess) \<Longrightarrow> i < length (lower guess) \<Longrightarrow>
   \<exists>feedback. grade_guess lower solution guess = Inr feedback
     \<and> feedback ! i =
        (if lower guess ! i = lower solution ! i then GREEN
         else if earlier (lower solution) (lower guess) i
                   < unmatched (lower solution) (lower guess) (lower guess ! i)
           then YELLOW
         else BLACK)"
proof -
  assume len: "length (lower solution) = length (lower guess)"
    and i: "i < length (lower guess)"
  let ?s = "lower solution" and ?g = "lower guess"
  from len i have "i < length (spec_grade ?s ?g)"
    by (simp add: length_spec_grade)
  then have "map glyph (spec_grade ?s ?g) ! i = glyph (spec_grade ?s ?g ! i)"
    by simp
  also have "spec_grade ?s ?g ! i =
      (if ?g ! i = ?s ! i then Exact
       else if earlier ?s ?g i < unmatched ?s ?g (?g ! i) then Present else Absent)"
    using len i by (simp add: spec_grade_eq spec_second_pass_nth)
  finally show ?thesis
    using len by (simp add: grade_guess_eq)
qed

theorem grade_guess_left_to_right_witness:
  "length (str_lower (str_of ''arrow'')) = length (str_lower (str_of ''rarer''))
   \<and> 4 < length (str_lower (str_of ''rarer''))
   \<and> str_lower (str_of ''rarer'') ! 0 = str_lower (str_of ''rarer'') ! 4
   \<and> unmatched (str_lower (str_of ''arrow'')) (str_lower (str_of ''rarer''))
        (str_lower (str_of ''rarer'') ! 4) = 1
   \<and> (\<exists>feedback. grade_guess str_lower (str_of ''arrow'') (str_of ''rarer'') = Inr feedback
        \<and> feedback ! 0 = YELLOW \<and> feedback ! 4 = BLACK)"
proof -
  have h: "length (str_lower (str_of ''arrow'')) = length (str_lower (str_of ''rarer''))"
    and k: "4 < length (str_lower (str_of ''rarer''))"
    and z: "0 < length (str_lower (str_of ''rarer''))"
    by (simp_all add: str_lower_def lower_cp_def str_of_def)
  from grade_guess_left_to_right [of str_lower "str_of ''arrow''" "str_of ''rarer''" 4, OF h k]
    grade_guess_left_to_right [of str_lower "str_of ''arrow''" "str_of ''rarer''" 0, OF h z]
  show ?thesis
    by (auto simp add: earlier_def unmatched_def str_lower_def lower_cp_def str_of_def)
qed


section \<open>The game round\<close>

lemma graded_append: "graded (a @ b) = graded a + graded b"
  by (simp add: graded_def)

lemma read_guess_eof:
  "filter (accepted lower strip ALLOWED len) stdin = [] \<Longrightarrow>
   fst (read_guess lower strip ALLOWED len attempt m stdin out) = Inl EOFError"
proof (induction stdin arbitrary: out)
  case Nil
  show ?case by simp
next
  case (Cons x xs)
  from Cons.prems have no: "\<not> accepted lower strip ALLOWED len x"
    and rest: "filter (accepted lower strip ALLOWED len) xs = []"
    by (auto split: if_splits)
  from no Cons.IH [OF rest] show ?case
    by (auto simp add: accepted_def Let_def)
qed

lemma read_guess_accepts:
  "filter (accepted lower strip ALLOWED len) stdin = l # fs \<Longrightarrow>
   \<exists>post out'. read_guess lower strip ALLOWED len attempt m stdin out =
                  (Inr (lower (strip l)), post, out')
     \<and> filter (accepted lower strip ALLOWED len) post = fs
     \<and> graded out' = graded out"
proof (induction stdin arbitrary: out)
  case Nil
  then show ?case by simp
next
  case (Cons x xs)
  show ?case
  proof (cases "accepted lower strip ALLOWED len x")
    case True
    with Cons.prems have "x = l" "filter (accepted lower strip ALLOWED len) xs = fs"
      by auto
    moreover from True have "length (lower (strip x)) = len" "lower (strip x) \<in> ALLOWED"
      by (simp_all add: accepted_def)
    ultimately show ?thesis
      by (simp add: Let_def graded_append graded_def)
  next
    case False
    with Cons.prems have rest: "filter (accepted lower strip ALLOWED len) xs = l # fs"
      by auto
    have step: "\<exists>post out'. read_guess lower strip ALLOWED len attempt m xs o1 =
                  (Inr (lower (strip l)), post, out')
                \<and> filter (accepted lower strip ALLOWED len) post = fs
                \<and> graded out' = graded o1" for o1
      by (rule Cons.IH [OF rest])
    from False consider "length (lower (strip x)) \<noteq> len"
      | "length (lower (strip x)) = len" "lower (strip x) \<notin> ALLOWED"
      by (auto simp add: accepted_def)
    then show ?thesis
    proof cases
      case 1
      with step [of "(out @ [Prompt attempt m]) @ [WrongLength len]"] show ?thesis
        by (auto simp add: Let_def graded_append graded_def)
    next
      case 2
      with step [of "(out @ [Prompt attempt m]) @ [NotAllowed]"] show ?thesis
        by (auto simp add: Let_def graded_append graded_def)
    qed
  qed
qed

lemma accepted_grades:
  assumes idem: "\<And>s. lower (lower s) = lower s"
    and sol: "lower solution = solution"
    and acc: "accepted lower strip ALLOWED (length solution) l"
  shows "\<exists>feedback. grade_guess lower solution (lower (strip l)) = Inr feedback"
  using acc by (simp add: grade_guess_eq accepted_def idem sol)

lemma guess_loop_result:
  assumes idem: "\<And>s. lower (lower s) = lower s"
    and sol: "lower solution = solution"
  shows "guess_loop lower strip ALLOWED solution m attempts stdin out = (st, rest, out') \<Longrightarrow>
    (let gs = take (length attempts) (guesses lower strip ALLOWED (length solution) stdin);
         k = length (takeWhile (\<lambda>g. \<not> wins lower solution g) gs)
     in if k < length gs
        then st = Inr True \<and> last out' = Nice (attempts ! k) \<and> graded out' = graded out + Suc k
        else if length gs = length attempts
        then st = Inr False \<and> graded out' = graded out + length attempts
        else st = Inl EOFError)"
proof (induction attempts arbitrary: stdin out)
  case Nil
  then show ?case by simp
next
  case (Cons a attempts)
  let ?acc = "accepted lower strip ALLOWED (length solution)"
  show ?case
  proof (cases "filter ?acc stdin")
    case Nil
    from read_guess_eof [OF Nil, of a m out] Cons.prems have "st = Inl EOFError"
      by (auto split: prod.splits sum.splits)
    with Nil show ?thesis
      by (simp add: guesses_def)
  next
    case (Cons l fs)
    from read_guess_accepts [OF Cons, of a m out] obtain post out1 where
      rd: "read_guess lower strip ALLOWED (length solution) a m stdin out =
             (Inr (lower (strip l)), post, out1)"
      and post: "filter ?acc post = fs"
      and g1: "graded out1 = graded out"
      by blast
    have "l \<in> set (filter ?acc stdin)" using Cons by simp
    then have acc: "?acc l" by simp
    from accepted_grades [OF idem sol acc] obtain feedback where
      fb: "grade_guess lower solution (lower (strip l)) = Inr feedback"
      by blast
    have gs: "guesses lower strip ALLOWED (length solution) stdin =
                lower (strip l) # guesses lower strip ALLOWED (length solution) post"
      using Cons post by (simp add: guesses_def)
    show ?thesis
    proof (cases "list_all (\<lambda>s. s = GREEN) feedback")
      case True
      then have w: "wins lower solution (lower (strip l))"
        by (simp add: wins_def fb)
      from True rd fb Cons.prems
      have "st = Inr True" "out' = out1 @ [Tiles (concat feedback), Nice a]"
        by simp_all
      with w gs g1 show ?thesis
        by (simp add: graded_append graded_def)
    next
      case False
      then have w: "\<not> wins lower solution (lower (strip l))"
        by (simp add: wins_def fb)
      from False rd fb Cons.prems
      have run: "guess_loop lower strip ALLOWED solution m attempts post
                   (out1 @ [Tiles (concat feedback)]) = (st, rest, out')"
        by simp
      have g2: "graded (out1 @ [Tiles (concat feedback)]) = Suc (graded out)"
        using g1 by (simp add: graded_append graded_def)
      from Cons.IH [OF run] w gs g2 show ?thesis
        by (simp add: Let_def)
    qed
  qed
qed


lemma attempts_upt: "[1..<7] = [1, 2, 3, 4, 5, 6 :: nat]"
  by (simp add: upt_conv_Cons)

lemma attempts_nth: "k < 6 \<Longrightarrow> [1, 2, 3, 4, 5, 6 :: nat] ! k = Suc k"
proof -
  assume "k < 6"
  then have "[1..<7] ! k = 1 + k"
    by (intro nth_upt) simp
  then show ?thesis
    unfolding attempts_upt by simp
qed

lemma attempts_range: "[1..<6 + 1] = [1, 2, 3, 4, 5, 6 :: nat]"
  using attempts_upt by simp

lemma play_interactive_unfold:
  "play_interactive lower strip ALLOWED choice solution0 stdin =
     (case guess_loop lower strip ALLOWED
             (lower (case solution0 of None \<Rightarrow> choice | Some s \<Rightarrow> if s = [] then choice else s))
             6 [1, 2, 3, 4, 5, 6] stdin [Welcome, Legend 6] of
        (Inl e, stdin', out') \<Rightarrow> (Inl e, stdin', out')
      | (Inr True, stdin', out') \<Rightarrow> (Inr (), stdin', out')
      | (Inr False, stdin', out') \<Rightarrow>
          (Inr (), stdin', out' @ [Reveal
             (lower (case solution0 of None \<Rightarrow> choice | Some s \<Rightarrow> if s = [] then choice else s))]))"
  unfolding play_interactive_def Let_def attempts_range ..

text \<open>
  C8.  Let the guesses be the accepted lines of the input, in order; rejected lines
  (wrong length or not in the vocabulary) are not among them and so use up no attempt.
  If one of the first six guesses wins, that is \<open>grade_guess\<close> returns green tiles only,
  the round returns at the first such guess, having graded exactly the guesses up to it,
  and its last line is the success line with that guess's number.  If the first six
  guesses all fail, the round returns after grading exactly six and its last line
  reveals the solution.  If the input ends before either, \<open>input\<close> raises \<open>EOFError\<close>.
  The hypothesis says that lowercasing a lowercased string changes nothing, as
  \<open>str.lower()\<close> does.
\<close>

theorem play_interactive_round:
  assumes idem: "\<And>s. lower (lower s) = lower s"
    and run: "play_interactive lower strip ALLOWED choice solution0 stdin = (status, rest, out)"
  shows "(let solution = lower (case solution0 of None \<Rightarrow> choice
                                | Some s \<Rightarrow> if s = [] then choice else s);
              gs = take 6 (guesses lower strip ALLOWED (length solution) stdin);
              k = length (takeWhile (\<lambda>g. \<not> wins lower solution g) gs)
          in if k < length gs
             then status = Inr () \<and> last out = Nice (Suc k) \<and> graded out = Suc k
             else if length gs = 6
             then status = Inr () \<and> last out = Reveal solution \<and> graded out = 6
             else status = Inl EOFError)"
proof -
  define solution where
    "solution = lower (case solution0 of None \<Rightarrow> choice | Some s \<Rightarrow> if s = [] then choice else s)"
  define gs where "gs = take 6 (guesses lower strip ALLOWED (length solution) stdin)"
  define k where "k = length (takeWhile (\<lambda>g. \<not> wins lower solution g) gs)"
  have sol: "lower solution = solution"
    by (simp add: solution_def idem)
  obtain st r o1 where
    loop: "guess_loop lower strip ALLOWED solution 6 [1, 2, 3, 4, 5, 6] stdin [Welcome, Legend 6] =
             (st, r, o1)"
    using prod_cases3 by blast
  have g0: "graded [Welcome, Legend 6] = 0"
    by (simp add: graded_def)
  have len: "length [1, 2, 3, 4, 5, 6 :: nat] = 6"
    by simp
  from guess_loop_result [OF idem sol loop] have res:
    "if k < length gs
     then st = Inr True \<and> last o1 = Nice ([1, 2, 3, 4, 5, 6] ! k) \<and> graded o1 = Suc k
     else if length gs = 6 then st = Inr False \<and> graded o1 = 6
     else st = Inl EOFError"
    unfolding len g0 Let_def gs_def [symmetric] k_def [symmetric] by simp
  have "k < length gs \<Longrightarrow> k < 6"
    by (simp add: gs_def)
  then have k6: "k < length gs \<Longrightarrow> [1, 2, 3, 4, 5, 6] ! k = Suc k"
    by (simp only: attempts_nth)
  from run loop have fin:
    "(status, rest, out) =
       (case st of Inl e \<Rightarrow> (Inl e, r, o1)
        | Inr b \<Rightarrow> if b then (Inr (), r, o1) else (Inr (), r, o1 @ [Reveal solution]))"
    by (auto simp add: play_interactive_unfold solution_def [symmetric] split: sum.splits bool.splits)
  have "if k < length gs
        then status = Inr () \<and> last out = Nice (Suc k) \<and> graded out = Suc k
        else if length gs = 6
        then status = Inr () \<and> last out = Reveal solution \<and> graded out = 6
        else status = Inl EOFError"
    using res fin k6 by (auto simp add: graded_append graded_def split: if_splits)
  then show ?thesis
    unfolding Let_def solution_def [symmetric] gs_def [symmetric] k_def [symmetric] .
qed

text \<open>
  A round on the built-in word lists with solution \<open>crane\<close>: a line of three letters and
  a line outside the vocabulary are prompted again under the same attempt number, then
  \<open>trace\<close> is graded as the first attempt and \<open>CRANE\<close> wins as the second; the line after
  it is never read.
\<close>

lemma round_run:
  "play_interactive str_lower str_strip ALLOWED0 (str_of ''apple'') (Some (str_of ''crane''))
     [str_of ''tea'', str_of ''xxxxx'', str_of '' Trace '', str_of ''CRANE'', str_of ''apple''] =
   (Inr (), [str_of ''apple''],
    [Welcome, Legend 6, Prompt 1 6, WrongLength 5, Prompt 1 6, NotAllowed, Prompt 1 6,
     Tiles (BLACK @ GREEN @ GREEN @ YELLOW @ GREEN), Prompt 2 6,
     Tiles (GREEN @ GREEN @ GREEN @ GREEN @ GREEN), Nice 2])"
  by (simp add: play_interactive_unfold grade_eval str_strip_def isspace_def ALLOWED0_def SOLUTIONS_def)

text \<open>
  A lost round: six accepted guesses, none the solution, then the closing line; the
  seventh line is never read.
\<close>

lemma round_run_lost:
  "play_interactive str_lower str_strip ALLOWED0 (str_of ''apple'') (Some (str_of ''crane''))
     [str_of ''stone'', str_of ''light'', str_of ''glass'', str_of ''flame'', str_of ''pride'',
      str_of ''brave'', str_of ''crane''] =
   (Inr (), [str_of ''crane''],
    [Welcome, Legend 6,
     Prompt 1 6, Tiles (BLACK @ BLACK @ BLACK @ GREEN @ GREEN),
     Prompt 2 6, Tiles (BLACK @ BLACK @ BLACK @ BLACK @ BLACK),
     Prompt 3 6, Tiles (BLACK @ BLACK @ GREEN @ BLACK @ BLACK),
     Prompt 4 6, Tiles (BLACK @ BLACK @ GREEN @ BLACK @ GREEN),
     Prompt 5 6, Tiles (BLACK @ GREEN @ BLACK @ BLACK @ GREEN),
     Prompt 6 6, Tiles (BLACK @ GREEN @ GREEN @ BLACK @ GREEN),
     Reveal (str_of ''crane'')])"
  by (simp add: play_interactive_unfold grade_eval str_strip_def isspace_def ALLOWED0_def SOLUTIONS_def)

theorem play_interactive_round_witness:
  "(\<forall>s. str_lower (str_lower s) = str_lower s)
   \<and> play_interactive str_lower str_strip ALLOWED0 (str_of ''apple'') (Some (str_of ''crane''))
       [str_of ''tea'', str_of ''xxxxx'', str_of '' Trace '', str_of ''CRANE'', str_of ''apple''] =
     (Inr (), [str_of ''apple''],
      [Welcome, Legend 6, Prompt 1 6, WrongLength 5, Prompt 1 6, NotAllowed, Prompt 1 6,
       Tiles (BLACK @ GREEN @ GREEN @ YELLOW @ GREEN), Prompt 2 6,
       Tiles (GREEN @ GREEN @ GREEN @ GREEN @ GREEN), Nice 2])
   \<and> guesses str_lower str_strip ALLOWED0 5
       [str_of ''tea'', str_of ''xxxxx'', str_of '' Trace '', str_of ''CRANE'', str_of ''apple''] =
     [str_of ''trace'', str_of ''crane'', str_of ''apple'']
   \<and> \<not> wins str_lower (str_of ''crane'') (str_of ''trace'')
   \<and> wins str_lower (str_of ''crane'') (str_of ''crane'')
   \<and> graded
       [Welcome, Legend 6, Prompt 1 6, WrongLength 5, Prompt 1 6, NotAllowed, Prompt 1 6,
        Tiles (BLACK @ GREEN @ GREEN @ YELLOW @ GREEN), Prompt 2 6,
        Tiles (GREEN @ GREEN @ GREEN @ GREEN @ GREEN), Nice 2] = 2"
proof -
  have g: "guesses str_lower str_strip ALLOWED0 5
       [str_of ''tea'', str_of ''xxxxx'', str_of '' Trace '', str_of ''CRANE'', str_of ''apple''] =
     [str_of ''trace'', str_of ''crane'', str_of ''apple'']"
    by (simp add: guesses_def accepted_def str_lower_def lower_cp_def str_of_def
          str_strip_def isspace_def ALLOWED0_def SOLUTIONS_def)
  have w: "\<not> wins str_lower (str_of ''crane'') (str_of ''trace'')"
    "wins str_lower (str_of ''crane'') (str_of ''crane'')"
    by (simp_all add: wins_def grade_eval)
  have sol: "str_lower (str_of ''crane'') = str_of ''crane''"
    by (simp add: str_lower_def lower_cp_def str_of_def)
  have len: "length (str_of ''crane'') = 5" and ne: "str_of ''crane'' \<noteq> []"
    by (simp_all add: str_of_def)
  from play_interactive_round [OF str_lower_idem round_run]
  have "graded
       [Welcome, Legend 6, Prompt 1 6, WrongLength 5, Prompt 1 6, NotAllowed, Prompt 1 6,
        Tiles (BLACK @ GREEN @ GREEN @ YELLOW @ GREEN), Prompt 2 6,
        Tiles (GREEN @ GREEN @ GREEN @ GREEN @ GREEN), Nice 2] = 2"
    by (simp add: Let_def ne sol len g w)
  with g w round_run str_lower_idem show ?thesis
    by simp
qed

end
